theory Spec2Isabelle
  imports Main "HOL-Library.Word" "HOL-Library.Sublist" "HOL-Library.AList"
begin

section \<open>Bytes, errors and results\<close>

text \<open>
  Go strings and byte slices are sequences of bytes; both are modelled as \<open>char list\<close>
  (an Isabelle \<open>char\<close> is one byte). Go's \<open>int\<close> is modelled as \<open>int\<close>: every \<open>int\<close>
  of the decoder is a length or an offset into a buffer held in memory, far from the
  64-bit range.
\<close>

type_synonym bytes = "char list"

abbreviation NUL :: char where
  "NUL \<equiv> CHR 0x00"

text \<open>
  The errors the package returns. The Go code builds them with \<open>errors.New\<close> and
  \<open>fmt.Errorf\<close>, or hands on the errors of \<open>io\<close>, \<open>encoding/binary\<close> and \<open>net\<close>.
  \<open>MalformedLength\<close> is the error of the specification's taxonomy for a declared length
  that is inconsistent with the remaining input; no function of the package builds it.
\<close>

datatype error =
    EOF
  | ErrUnexpectedEOF
  | InvalidType
  | UnsupportedTypeTagString
  | UnsupportedTypeTag char
  | UnsupportedType
  | InvalidBundleStartTag string
  | UnsupportedPacketType
  | NetError bool
  | AddrCharNotAllowed char
  | AddrExists string
  | MalformedLength

text \<open>
  A call returns a value, returns an error, or panics (a Go run-time panic: an index out
  of range, a nil dereference, \<open>regexp.MustCompile\<close> on a bad pattern).
\<close>

datatype 'a result = Ok 'a | Err error | Panic

section \<open>Integers on the wire\<close>

text \<open>Go's integer division truncates towards zero.\<close>

definition go_quot :: "int \<Rightarrow> int \<Rightarrow> int" where
  "go_quot a b = (if (a < 0) = (b < 0) then \<bar>a\<bar> div \<bar>b\<bar> else - (\<bar>a\<bar> div \<bar>b\<bar>))"

text \<open>\<open>binary.BigEndian\<close>: the \<open>k\<close> low bytes of a value, most significant first.\<close>

fun be_bytes :: "nat \<Rightarrow> nat \<Rightarrow> bytes" where
  "be_bytes 0 v = []"
| "be_bytes (Suc k) v = be_bytes k (v div 256) @ [char_of v]"

definition from_be :: "bytes \<Rightarrow> nat" where
  "from_be bs = foldl (\<lambda>acc b. acc * 256 + of_char b) 0 bs"

section \<open>Padded strings (osc.go)\<close>

text \<open>
  \<^verbatim>\<open>func padBytesNeeded(elementLen int) int { return 4*(elementLen/4+1) - elementLen }\<close>
\<close>

definition padBytesNeeded :: "int \<Rightarrow> int" where
  "padBytesNeeded elementLen = 4 * (go_quot elementLen 4 + 1) - elementLen"

text \<open>
  \<open>writePaddedString\<close> appends to a \<open>bytes.Buffer\<close>, whose \<open>Write\<close> and \<open>WriteString\<close>
  return the number of bytes given and a nil error: the error returns of the source are
  branches that no call takes. The model returns the count and the new buffer contents.
  In the source the inner \<open>n\<close> (the count of pad bytes written) shadows the outer one
  (the length of the string), and \<open>numPadBytes\<close> is set to the inner one.
\<close>

definition writePaddedString :: "string \<Rightarrow> bytes \<Rightarrow> int result \<times> bytes" where
  "writePaddedString str buf =
     (let n = int (length str);
          buf1 = buf @ str;
          numPadBytes = padBytesNeeded (int (length str))
      in if numPadBytes > 0
         then (let padBytes = replicate (nat numPadBytes) NUL;
                   buf2 = buf1 @ padBytes;
                   n' = int (length padBytes)
               in (Ok (n + n'), buf2))
         else (Ok (n + numPadBytes), buf1))"

section \<open>The reader (bufio.Reader over the bytes of one packet)\<close>

text \<open>
  \<open>ParsePacket\<close> and \<open>ReceivePacket\<close> wrap the bytes of one packet in a \<open>bufio.Reader\<close>.
  The reader is modelled by the bytes not yet consumed; each operation returns its
  result and the bytes left.
  \<^item> \<open>Peek(1)\<close> fails with \<open>io.EOF\<close> on exhausted input and consumes nothing.
  \<^item> \<open>ReadString(0)\<close> returns the bytes up to and including the first NUL; with no NUL
    left it consumes the rest and fails with \<open>io.EOF\<close>.
  \<^item> \<open>Read(p)\<close> fails with \<open>io.EOF\<close> when nothing is left, and otherwise fills \<open>p\<close>
    with what is there, up to \<open>len(p)\<close> bytes: a short read is not an error. The
    decoder guards its calls with \<open>len(p) > 0\<close>, but for the blob's data; a \<open>Read\<close> of
    no bytes is taken to return none and no error. (A
    \<open>bufio.Reader\<close> serves a \<open>Read\<close> from its 4096-byte window only; the decoder asks
    for at most 3 pad bytes behind a terminator, at offsets where they lie in the same
    window, so the model serves them from the whole remaining input.)
  \<^item> \<open>binary.Read\<close> into a fixed-size value of \<open>k\<close> bytes is \<open>io.ReadFull\<close>: \<open>io.EOF\<close>
    when nothing is left, \<open>io.ErrUnexpectedEOF\<close> when fewer than \<open>k\<close> bytes are.
  \<^item> \<open>binary.Read\<close> into a Go \<open>int\<close> reads nothing and fails: \<open>int\<close> is not a
    fixed-size type (\<open>binary.Read: invalid type *int\<close>).
\<close>

definition Peek1 :: "bytes \<Rightarrow> char result" where
  "Peek1 r = (case r of [] \<Rightarrow> Err EOF | c # _ \<Rightarrow> Ok c)"

definition ReadString0 :: "bytes \<Rightarrow> bytes result \<times> bytes" where
  "ReadString0 r =
     (if NUL \<in> set r
      then (Ok (takeWhile (\<lambda>c. c \<noteq> NUL) r @ [NUL]), tl (dropWhile (\<lambda>c. c \<noteq> NUL) r))
      else (Err EOF, []))"

definition Read :: "nat \<Rightarrow> bytes \<Rightarrow> bytes result \<times> bytes" where
  "Read k r = (if r = [] \<and> 0 < k then (Err EOF, r) else (Ok (take k r), drop k r))"

definition binary_Read :: "nat \<Rightarrow> bytes \<Rightarrow> bytes result \<times> bytes" where
  "binary_Read k r =
     (if k \<le> length r then (Ok (take k r), drop k r)
      else if r = [] then (Err EOF, [])
      else (Err ErrUnexpectedEOF, []))"

definition binary_Read_int :: "bytes \<Rightarrow> int result \<times> bytes" where
  "binary_Read_int r = (Err InvalidType, r)"

text \<open>
  \<open>readPaddedString\<close> returns the string without its terminator and the number of bytes
  it counts as consumed: the string, its terminator and \<open>padLen\<close> pad bytes, whether or
  not the \<open>Read\<close> of the pad bytes was short.
\<close>

definition readPaddedString :: "bytes \<Rightarrow> (string \<times> int) result \<times> bytes" where
  "readPaddedString r =
     (case ReadString0 r of
        (Err e, r1) \<Rightarrow> (Err e, r1)
      | (Panic, r1) \<Rightarrow> (Panic, r1)
      | (Ok str0, r1) \<Rightarrow>
          (let n = int (length str0);
               str = butlast str0;
               padLen = padBytesNeeded (int (length str)) - 1
           in if padLen > 0
              then (case Read (nat padLen) r1 of
                      (Err e, r2) \<Rightarrow> (Err e, r2)
                    | (Panic, r2) \<Rightarrow> (Panic, r2)
                    | (Ok padBytes, r2) \<Rightarrow> (Ok (str, n + padLen), r2))
              else (Ok (str, n), r1)))"

section \<open>Blobs (osc.go)\<close>

text \<open>
  \<open>readBlob\<close> declares \<open>var blobLen int\<close> and reads it with \<open>binary.Read\<close>. What follows
  that read is written as in the source: \<open>make([]byte, blobLen)\<close> panics on a negative
  length, and the two \<open>Read\<close> calls take what is there.
\<close>

definition readBlob :: "bytes \<Rightarrow> (bytes \<times> int) result \<times> bytes" where
  "readBlob r =
     (case binary_Read_int r of
        (Err e, r1) \<Rightarrow> (Err e, r1)
      | (Panic, r1) \<Rightarrow> (Panic, r1)
      | (Ok blobLen, r1) \<Rightarrow>
          (let n = 4 + blobLen
           in if blobLen < 0 then (Panic, r1)
              else (case Read (nat blobLen) r1 of
                      (Err e, r2) \<Rightarrow> (Err e, r2)
                    | (Panic, r2) \<Rightarrow> (Panic, r2)
                    | (Ok blob, r2) \<Rightarrow>
                        (let numPadBytes = padBytesNeeded blobLen
                         in if numPadBytes > 0
                            then (case Read (nat numPadBytes) r2 of
                                    (Err e, r3) \<Rightarrow> (Err e, r3)
                                  | (Panic, r3) \<Rightarrow> (Panic, r3)
                                  | (Ok dummy, r3) \<Rightarrow> (Ok (blob, n + numPadBytes), r3))
                            else (Ok (blob, n), r2)))))"

text \<open>
  \<open>writeBlob\<close> writes \<open>int32(len(data))\<close> (the length cut to 32 bits), the data and
  \<open>padBytesNeeded(len(data))\<close> zero bytes.
\<close>

definition writeBlob :: "bytes \<Rightarrow> bytes \<Rightarrow> int result \<times> bytes" where
  "writeBlob data buf =
     (let buf1 = buf @ be_bytes 4 (length data);
          buf2 = buf1 @ data;
          numPadBytes = padBytesNeeded (int (length data))
      in if numPadBytes > 0
         then (let padBytes = replicate (nat numPadBytes) NUL
               in (Ok (4 + int (length data) + int (length padBytes)), buf2 @ padBytes))
         else (Ok (4 + int (length data) + numPadBytes), buf2))"

section \<open>Messages (message.go)\<close>

text \<open>
  An argument is a Go \<open>interface{}\<close>; the constructors are the dynamic types the type
  switches of the package tell apart, and \<open>Arg_other\<close> stands for a value of any other
  type (an \<open>int\<close>, say). A \<open>float32\<close> or \<open>float64\<close> is held as its IEEE 754 bit pattern,
  which is all that \<open>binary.Write\<close> and \<open>binary.Read\<close> handle.

  Modelled from the spec: the \<open>Timetag\<close> type and its functions \<open>ToByteArray\<close>,
  \<open>NewTimetagFromTimetag\<close>, \<open>NewTimetag\<close> and \<open>timetagToTime\<close> are not among the source
  files. The specification has a Timetag be a 64-bit unsigned fixed-point value, built
  from a raw 64-bit wire value or from a wall-clock instant, with an 8-byte big-endian
  encoding; a wall-clock instant is identified here with that 64-bit value.
\<close>

type_synonym Timetag = "64 word"

definition ToByteArray :: "Timetag \<Rightarrow> bytes" where
  "ToByteArray t = be_bytes 8 (unat t)"

definition NewTimetagFromTimetag :: "64 word \<Rightarrow> Timetag" where
  "NewTimetagFromTimetag tt = tt"

definition timetagToTime :: "64 word \<Rightarrow> 64 word" where
  "timetagToTime tt = tt"

definition NewTimetag :: "64 word \<Rightarrow> Timetag" where
  "NewTimetag t = t"

datatype Argument =
    Arg_nil
  | Arg_bool bool
  | Arg_int32 "32 word"
  | Arg_int64 "64 word"
  | Arg_float32 "32 word"
  | Arg_float64 "64 word"
  | Arg_string string
  | Arg_blob bytes
  | Arg_timetag Timetag
  | Arg_other

record Message =
  Address :: string
  Arguments :: "Argument list"
  msg_addr :: "string option"

definition NewMessage :: "string \<Rightarrow> Message" where
  "NewMessage a = \<lparr>Address = a, Arguments = [], msg_addr = None\<rparr>"

definition Append :: "Message \<Rightarrow> Argument \<Rightarrow> Message" where
  "Append msg arg = msg\<lparr>Arguments := Arguments msg @ [arg]\<rparr>"

text \<open>
  One turn of the loop of \<open>MarshalBinary\<close> over the arguments: the type switch appends a
  tag to \<open>typetags\<close> and the argument's bytes to \<open>payload\<close>.
\<close>

fun marshal_arg :: "Argument \<Rightarrow> bytes \<times> bytes \<Rightarrow> (bytes \<times> bytes) result" where
  "marshal_arg (Arg_bool b) (typetags, payload) =
     (if b = True then Ok (typetags @ ''T'', payload) else Ok (typetags @ ''F'', payload))"
| "marshal_arg Arg_nil (typetags, payload) = Ok (typetags @ ''N'', payload)"
| "marshal_arg (Arg_int32 t) (typetags, payload) =
     Ok (typetags @ ''i'', payload @ be_bytes 4 (unat t))"
| "marshal_arg (Arg_float32 t) (typetags, payload) =
     Ok (typetags @ ''f'', payload @ be_bytes 4 (unat t))"
| "marshal_arg (Arg_string t) (typetags, payload) =
     (case writePaddedString t payload of
        (Ok n, payload') \<Rightarrow> Ok (typetags @ ''s'', payload')
      | (Err e, payload') \<Rightarrow> Err e
      | (Panic, payload') \<Rightarrow> Panic)"
| "marshal_arg (Arg_blob t) (typetags, payload) =
     (case writeBlob t payload of
        (Ok n, payload') \<Rightarrow> Ok (typetags @ ''b'', payload')
      | (Err e, payload') \<Rightarrow> Err e
      | (Panic, payload') \<Rightarrow> Panic)"
| "marshal_arg (Arg_int64 t) (typetags, payload) =
     Ok (typetags @ ''h'', payload @ be_bytes 8 (unat t))"
| "marshal_arg (Arg_float64 t) (typetags, payload) =
     Ok (typetags @ ''d'', payload @ be_bytes 8 (unat t))"
| "marshal_arg (Arg_timetag t) (typetags, payload) =
     Ok (typetags @ ''t'', payload @ ToByteArray t)"
| "marshal_arg Arg_other (typetags, payload) = Err UnsupportedType"

fun marshal_args :: "Argument list \<Rightarrow> bytes \<times> bytes \<Rightarrow> (bytes \<times> bytes) result" where
  "marshal_args [] acc = Ok acc"
| "marshal_args (arg # args) acc =
     (case marshal_arg arg acc of
        Ok acc' \<Rightarrow> marshal_args args acc'
      | Err e \<Rightarrow> Err e
      | Panic \<Rightarrow> Panic)"

definition MarshalBinary :: "Message \<Rightarrow> bytes result" where
  "MarshalBinary msg =
     (case writePaddedString (Address msg) [] of
        (Err e, data) \<Rightarrow> Err e
      | (Panic, data) \<Rightarrow> Panic
      | (Ok n, data) \<Rightarrow>
          (case marshal_args (Arguments msg) ('','', []) of
             Err e \<Rightarrow> Err e
           | Panic \<Rightarrow> Panic
           | Ok (typetags, payload) \<Rightarrow>
               (case writePaddedString typetags data of
                  (Err e, data') \<Rightarrow> Err e
                | (Panic, data') \<Rightarrow> Panic
                | (Ok n', data') \<Rightarrow> Ok (data' @ payload))))"

section \<open>Decoding a message (osc.go)\<close>

text \<open>
  The loop of \<open>readArguments\<close> over the type tags behind the comma. Each call takes the
  message built so far, the reader and \<open>*start\<close>, and returns them updated. The cases
  are those of the source's switch: there is none for \<open>N\<close>, and the case for \<open>t\<close>
  answers a failed read with \<open>return nil\<close>.

  The source ranges over the runes of the string. Every tag with a case is one ASCII
  byte, and a byte outside ASCII starts a rune without a case, so ranging over the bytes
  takes the same branch at each position; the error for a tag without a case carries
  the byte where the source prints the rune.
\<close>

fun readArguments_loop ::
  "string \<Rightarrow> Message \<Rightarrow> bytes \<Rightarrow> int \<Rightarrow> Message result \<times> bytes \<times> int" where
  "readArguments_loop [] msg r start = (Ok msg, r, start)"
| "readArguments_loop (c # cs) msg r start =
     (if c = CHR ''i'' then
        (case binary_Read 4 r of
           (Err e, r1) \<Rightarrow> (Err e, r1, start)
         | (Panic, r1) \<Rightarrow> (Panic, r1, start)
         | (Ok bs, r1) \<Rightarrow>
             readArguments_loop cs (Append msg (Arg_int32 (of_nat (from_be bs)))) r1 (start + 4))
      else if c = CHR ''h'' then
        (case binary_Read 8 r of
           (Err e, r1) \<Rightarrow> (Err e, r1, start)
         | (Panic, r1) \<Rightarrow> (Panic, r1, start)
         | (Ok bs, r1) \<Rightarrow>
             readArguments_loop cs (Append msg (Arg_int64 (of_nat (from_be bs)))) r1 (start + 8))
      else if c = CHR ''f'' then
        (case binary_Read 4 r of
           (Err e, r1) \<Rightarrow> (Err e, r1, start)
         | (Panic, r1) \<Rightarrow> (Panic, r1, start)
         | (Ok bs, r1) \<Rightarrow>
             readArguments_loop cs (Append msg (Arg_float32 (of_nat (from_be bs)))) r1 (start + 4))
      else if c = CHR ''d'' then
        (case binary_Read 8 r of
           (Err e, r1) \<Rightarrow> (Err e, r1, start)
         | (Panic, r1) \<Rightarrow> (Panic, r1, start)
         | (Ok bs, r1) \<Rightarrow>
             readArguments_loop cs (Append msg (Arg_float64 (of_nat (from_be bs)))) r1 (start + 8))
      else if c = CHR ''s'' then
        (case readPaddedString r of
           (Err e, r1) \<Rightarrow> (Err e, r1, start)
         | (Panic, r1) \<Rightarrow> (Panic, r1, start)
         | (Ok (s, n), r1) \<Rightarrow>
             readArguments_loop cs (Append msg (Arg_string s)) r1
               (start + (int (length s) + padBytesNeeded (int (length s)))))
      else if c = CHR ''b'' then
        (case readBlob r of
           (Err e, r1) \<Rightarrow> (Err e, r1, start)
         | (Panic, r1) \<Rightarrow> (Panic, r1, start)
         | (Ok (buf, n), r1) \<Rightarrow>
             readArguments_loop cs (Append msg (Arg_blob buf)) r1 (start + n))
      else if c = CHR ''t'' then
        (case binary_Read 8 r of
           (Err e, r1) \<Rightarrow> (Ok msg, r1, start)
         | (Panic, r1) \<Rightarrow> (Panic, r1, start)
         | (Ok bs, r1) \<Rightarrow>
             readArguments_loop cs
               (Append msg (Arg_timetag (NewTimetagFromTimetag (of_nat (from_be bs))))) r1 (start + 8))
      else if c = CHR ''T'' then readArguments_loop cs (Append msg (Arg_bool True)) r start
      else if c = CHR ''F'' then readArguments_loop cs (Append msg (Arg_bool False)) r start
      else (Err (UnsupportedTypeTag c), r, start))"

text \<open>
  \<open>readArguments\<close> reads the padded type-tag string and tests \<open>typetags[0] != ','\<close>:
  on the empty string that index is out of range, and the Go run time panics.
\<close>

definition readArguments :: "Message \<Rightarrow> bytes \<Rightarrow> int \<Rightarrow> Message result \<times> bytes \<times> int" where
  "readArguments msg r start =
     (case readPaddedString r of
        (Err e, r1) \<Rightarrow> (Err e, r1, start)
      | (Panic, r1) \<Rightarrow> (Panic, r1, start)
      | (Ok (typetags, n), r1) \<Rightarrow>
          (case typetags of
             [] \<Rightarrow> (Panic, r1, start + n)
           | c # cs \<Rightarrow>
               if c \<noteq> CHR '','' then (Err UnsupportedTypeTagString, r1, start + n)
               else readArguments_loop cs msg r1 (start + n)))"

definition readMessage :: "bytes \<Rightarrow> int \<Rightarrow> Message result \<times> bytes \<times> int" where
  "readMessage r start =
     (case readPaddedString r of
        (Err e, r1) \<Rightarrow> (Err e, r1, start)
      | (Panic, r1) \<Rightarrow> (Panic, r1, start)
      | (Ok (a, n), r1) \<Rightarrow> readArguments (NewMessage a) r1 (start + n))"

section \<open>Bundles and packets (osc.go)\<close>

text \<open>
  A \<open>Packet\<close> is a \<open>*Message\<close> or a \<open>*Bundle\<close>; the nil interface value is \<open>None\<close> of
  \<open>Packet option\<close>. \<open>Bundle.Append\<close> refuses a packet that is neither.
  \<open>readBundle\<close> is split into the part before its loop (\<open>readBundle_head\<close>) and the
  loop (\<open>readBundle_loop\<close>), which calls \<open>readPacket\<close> for each element: the three
  functions are mutually recursive, and the loop goes on with the reader that
  \<open>readPacket\<close> left. The 4-byte length of an element is read and not used.
\<close>

datatype Bundle =
  Bundle (Timetag_of: Timetag) (Messages: "Message list") (Bundles: "Bundle list")
         (bundle_addr: "string option")

datatype Packet = PMessage Message | PBundle Bundle

definition bundleTag :: string where
  "bundleTag = ''#bundle''"

definition NewBundle :: "64 word \<Rightarrow> Bundle" where
  "NewBundle t = Bundle (NewTimetag t) [] [] None"

definition Bundle_Append :: "Bundle \<Rightarrow> Packet option \<Rightarrow> Bundle result" where
  "Bundle_Append b pck =
     (case pck of
        None \<Rightarrow> Err UnsupportedPacketType
      | Some (PBundle t) \<Rightarrow> Ok (Bundle (Timetag_of b) (Messages b) (Bundles b @ [t]) (bundle_addr b))
      | Some (PMessage t) \<Rightarrow> Ok (Bundle (Timetag_of b) (Messages b @ [t]) (Bundles b) (bundle_addr b)))"

definition readBundle_head :: "bytes \<Rightarrow> int \<Rightarrow> Bundle result \<times> bytes \<times> int" where
  "readBundle_head r start =
     (case readPaddedString r of
        (Err e, r1) \<Rightarrow> (Err e, r1, start)
      | (Panic, r1) \<Rightarrow> (Panic, r1, start)
      | (Ok (startTag, n), r1) \<Rightarrow>
          if startTag \<noteq> bundleTag then (Err (InvalidBundleStartTag startTag), r1, start + n)
          else (case binary_Read 8 r1 of
                  (Err e, r2) \<Rightarrow> (Err e, r2, start + n)
                | (Panic, r2) \<Rightarrow> (Panic, r2, start + n)
                | (Ok bs, r2) \<Rightarrow>
                    (Ok (NewBundle (timetagToTime (of_nat (from_be bs)))), r2, start + n + 8)))"

function readPacket :: "bytes \<Rightarrow> int \<Rightarrow> int \<Rightarrow> Packet option result \<times> bytes \<times> int"
  and readBundle :: "bytes \<Rightarrow> int \<Rightarrow> int \<Rightarrow> Bundle result \<times> bytes \<times> int"
  and readBundle_loop :: "Bundle \<Rightarrow> bytes \<Rightarrow> int \<Rightarrow> int \<Rightarrow> Bundle result \<times> bytes \<times> int"
where
  "readPacket r start endp =
     (case Peek1 r of
        Err e \<Rightarrow> (Err e, r, start)
      | Panic \<Rightarrow> (Panic, r, start)
      | Ok c \<Rightarrow>
          if c = CHR ''/'' then
            (case readMessage r start of
               (Err e, r1, start1) \<Rightarrow> (Err e, r1, start1)
             | (Panic, r1, start1) \<Rightarrow> (Panic, r1, start1)
             | (Ok pkt, r1, start1) \<Rightarrow> (Ok (Some (PMessage pkt)), r1, start1))
          else if c = CHR ''#'' then
            (case readBundle r start endp of
               (Err e, r1, start1) \<Rightarrow> (Err e, r1, start1)
             | (Panic, r1, start1) \<Rightarrow> (Panic, r1, start1)
             | (Ok pkt, r1, start1) \<Rightarrow> (Ok (Some (PBundle pkt)), r1, start1))
          else (Ok None, r, start))"
| "readBundle r start endp =
     (case readBundle_head r start of
        (Err e, r1, start1) \<Rightarrow> (Err e, r1, start1)
      | (Panic, r1, start1) \<Rightarrow> (Panic, r1, start1)
      | (Ok bundle, r1, start1) \<Rightarrow> readBundle_loop bundle r1 start1 endp)"
| "readBundle_loop bundle r start endp =
     (if start < endp then
        (case binary_Read 4 r of
           (Err e, r1) \<Rightarrow> (Err e, r1, start)
         | (Panic, r1) \<Rightarrow> (Panic, r1, start)
         | (Ok len, r1) \<Rightarrow>
             (case readPacket r1 (start + 4) endp of
                (Err e, r2, start2) \<Rightarrow> (Err e, r2, start2)
              | (Panic, r2, start2) \<Rightarrow> (Panic, r2, start2)
              | (Ok pkt, r2, start2) \<Rightarrow>
                  (case Bundle_Append bundle pkt of
                     Err e \<Rightarrow> (Err e, r2, start2)
                   | Panic \<Rightarrow> (Panic, r2, start2)
                   | Ok bundle' \<Rightarrow> readBundle_loop bundle' r2 start2 endp)))
      else (Ok bundle, r, start))"
  by pat_completeness auto

text \<open>
  The recursion ends because no read makes the reader longer and the loop consumes the
  four length bytes of an element before it decodes it.
\<close>

lemma ReadString0_length:
  assumes "ReadString0 r = (res, r1)"
  shows "length r1 \<le> length r"
proof (cases "NUL \<in> set r")
  case True
  with assms have "r1 = tl (dropWhile (\<lambda>c. c \<noteq> NUL) r)" by (simp add: ReadString0_def)
  moreover have "length (tl (dropWhile (\<lambda>c. c \<noteq> NUL) r)) \<le> length (dropWhile (\<lambda>c. c \<noteq> NUL) r)"
    by simp
  moreover have "length (dropWhile (\<lambda>c. c \<noteq> NUL) r) \<le> length r"
    by (rule length_dropWhile_le)
  ultimately show ?thesis by simp
next
  case False
  with assms show ?thesis by (simp add: ReadString0_def)
qed

lemma Read_length: "Read k r = (res, r1) \<Longrightarrow> length r1 \<le> length r"
  by (auto simp: Read_def split: if_splits)

lemma binary_Read_length: "binary_Read k r = (res, r1) \<Longrightarrow> length r1 \<le> length r"
  by (auto simp: binary_Read_def split: if_splits)

lemma binary_Read_Ok_length: "binary_Read k r = (Ok bs, r1) \<Longrightarrow> length r1 + k = length r"
  by (auto simp: binary_Read_def split: if_splits)

lemma readPaddedString_length: "readPaddedString r = (res, r1) \<Longrightarrow> length r1 \<le> length r"
  unfolding readPaddedString_def
  by (auto simp: Let_def split: prod.splits result.splits if_splits
           dest!: ReadString0_length Read_length)

lemma readBlob_length: "readBlob r = (res, r1) \<Longrightarrow> length r1 \<le> length r"
  by (simp add: readBlob_def binary_Read_int_def)

lemma readArguments_loop_length:
  "readArguments_loop cs msg r start = (res, r1, start1) \<Longrightarrow> length r1 \<le> length r"
proof (induction cs arbitrary: msg r start)
  case Nil
  then show ?case by simp
next
  case (Cons c cs)
  note IH = Cons.IH and p = Cons.prems
  have b: "length r' \<le> length r" if "binary_Read k r = (x, r')" for k x r'
    using that by (rule binary_Read_length)
  consider (i) "c = CHR ''i''" | (h) "c = CHR ''h''" | (f) "c = CHR ''f''" | (d) "c = CHR ''d''"
    | (s) "c = CHR ''s''" | (b) "c = CHR ''b''" | (t) "c = CHR ''t''" | (T) "c = CHR ''T''"
    | (F) "c = CHR ''F''"
    | (other) "c \<notin> {CHR ''i'', CHR ''h'', CHR ''f'', CHR ''d'', CHR ''s'', CHR ''b'', CHR ''t'',
                   CHR ''T'', CHR ''F''}"
    by auto
  then show ?case
  proof cases
    case i
    with p show ?thesis
      by (auto split: prod.splits result.splits dest!: IH b)
  next
    case h
    with p show ?thesis
      by (auto split: prod.splits result.splits dest!: IH b)
  next
    case f
    with p show ?thesis
      by (auto split: prod.splits result.splits dest!: IH b)
  next
    case d
    with p show ?thesis
      by (auto split: prod.splits result.splits dest!: IH b)
  next
    case s
    with p show ?thesis
      by (auto split: prod.splits result.splits dest!: IH readPaddedString_length)
  next
    case b
    with p show ?thesis
      by (auto split: prod.splits result.splits dest!: IH readBlob_length)
  next
    case t
    with p show ?thesis
      by (auto split: prod.splits result.splits dest!: IH b)
  next
    case T
    with p show ?thesis by (auto dest!: IH)
  next
    case F
    with p show ?thesis by (auto dest!: IH)
  next
    case other
    with p show ?thesis by auto
  qed
qed

lemma readArguments_length:
  "readArguments msg r start = (res, r1, start1) \<Longrightarrow> length r1 \<le> length r"
  unfolding readArguments_def
  by (auto split: prod.splits result.splits list.splits if_splits
           dest!: readPaddedString_length readArguments_loop_length)

lemma readMessage_length:
  "readMessage r start = (res, r1, start1) \<Longrightarrow> length r1 \<le> length r"
  unfolding readMessage_def
  by (auto split: prod.splits result.splits
           dest!: readPaddedString_length readArguments_length)

lemma readBundle_head_length:
  "readBundle_head r start = (res, r1, start1) \<Longrightarrow> length r1 \<le> length r"
  unfolding readBundle_head_def
  by (auto split: prod.splits result.splits if_splits
           dest!: readPaddedString_length binary_Read_length)

lemma readPacket_partial_length:
  "readPacket_readBundle_readBundle_loop_dom (Inl (r, start, endp)) \<Longrightarrow>
     length (fst (snd (readPacket r start endp))) \<le> length r"
  and "readPacket_readBundle_readBundle_loop_dom (Inr (Inl (r, start, endp))) \<Longrightarrow>
     length (fst (snd (readBundle r start endp))) \<le> length r"
  and "readPacket_readBundle_readBundle_loop_dom (Inr (Inr (b, r, start, endp))) \<Longrightarrow>
     length (fst (snd (readBundle_loop b r start endp))) \<le> length r"
proof (induction r start endp and r start endp and b r start endp
       rule: readPacket_readBundle_readBundle_loop.pinduct)
  case (1 r start endp)
  note ps = readPacket.psimps [OF "1.hyps"]
  show ?case
  proof (cases "Peek1 r")
    case (Ok c)
    show ?thesis
    proof (cases "c = CHR ''/''")
      case True
      obtain x r1 s1 where m: "readMessage r start = (x, r1, s1)"
        by (cases "readMessage r start") auto
      from readMessage_length [OF m] show ?thesis
        by (cases x) (simp_all add: ps Ok True m)
    next
      case False
      show ?thesis
      proof (cases "c = CHR ''#''")
        case True
        obtain x r1 s1 where m: "readBundle r start endp = (x, r1, s1)"
          by (cases "readBundle r start endp") auto
        from "1.IH" [OF Ok False True] m show ?thesis
          by (cases x) (simp_all add: ps Ok True)
      next
        case False
        with \<open>c \<noteq> CHR ''/''\<close> show ?thesis by (simp add: ps Ok)
      qed
    qed
  qed (simp_all add: ps)
next
  case (2 r start endp)
  note ps = readBundle.psimps [OF "2.hyps"]
  obtain x r1 s1 where m: "readBundle_head r start = (x, r1, s1)"
    by (cases "readBundle_head r start") auto
  note l = readBundle_head_length [OF m]
  show ?case
  proof (cases x)
    case (Ok bdl)
    from "2.IH" [of x "(r1, s1)" bdl r1 s1] m Ok
    have "length (fst (snd (readBundle_loop bdl r1 s1 endp))) \<le> length r1" by simp
    with l show ?thesis by (simp add: ps m Ok)
  qed (use l in \<open>simp_all add: ps m\<close>)
next
  case (3 b r start endp)
  note ps = readBundle_loop.psimps [OF "3.hyps"]
  show ?case
  proof (cases "start < endp")
    case True
    obtain x r1 where m: "binary_Read 4 r = (x, r1)"
      by (cases "binary_Read 4 r") auto
    note l = binary_Read_length [OF m]
    show ?thesis
    proof (cases x)
      case (Ok len)
      obtain y r2 s2 where p: "readPacket r1 (start + 4) endp = (y, r2, s2)"
        by (cases "readPacket r1 (start + 4) endp") auto
      from "3.IH"(1) [of x r1 len] True m Ok p have l2: "length r2 \<le> length r1" by simp
      show ?thesis
      proof (cases y)
        case (Ok pkt)
        note Okp = this
        show ?thesis
        proof (cases "Bundle_Append b pkt")
          case (Ok b')
          from "3.IH"(2) [of x r1 len y "(r2, s2)" pkt r2 s2 b'] True m \<open>x = Ok len\<close> p Okp Ok
          have "length (fst (snd (readBundle_loop b' r2 s2 endp))) \<le> length r2" by simp
          with l l2 show ?thesis by (simp add: ps True m \<open>x = Ok len\<close> p Okp Ok)
        qed (use l l2 in \<open>simp_all add: ps True m \<open>x = Ok len\<close> p Okp\<close>)
      qed (use l l2 in \<open>simp_all add: ps True m \<open>x = Ok len\<close> p\<close>)
    qed (use l in \<open>simp_all add: ps True m\<close>)
  next
    case False
    then show ?thesis by (simp add: ps)
  qed
qed

termination readPacket
proof (relation "measure (\<lambda>x. case x of
          Inl (r, start, endp) \<Rightarrow> 3 * length r + 2
        | Inr (Inl (r, start, endp)) \<Rightarrow> 3 * length r + 1
        | Inr (Inr (b, r, start, endp)) \<Rightarrow> 3 * length r)", goal_cases)
  case 1
  then show ?case by simp
next
  case (2 r start endp x1)
  then show ?case by simp
next
  case (3 r start endp x y x1 xa ya)
  then show ?case using readBundle_head_length [of r start x xa ya] by simp
next
  case (4 b r start endp x y x1)
  then show ?case using binary_Read_Ok_length [of 4 r x1 y] by simp
next
  case (5 b r start endp x y x1 xa ya x1a xb yb x1b)
  from 5(2,3) have "length y + 4 = length r"
    using binary_Read_Ok_length [of 4 r x1 y] by simp
  moreover from 5(4,6) have "xb = fst (snd (readPacket y (start + 4) endp))"
    by (metis fst_conv snd_conv)
  moreover note readPacket_partial_length(1) [OF 5(8)]
  ultimately show ?case by simp
qed

text \<open>
  The defining equations rewrite every call, also the calls on their own right-hand
  sides: they are unfolded by name, one call at a time.
\<close>

declare readPacket.simps [simp del] readBundle.simps [simp del] readBundle_loop.simps [simp del]

section \<open>The server (Serve, ReceivePacket)\<close>

definition ParsePacket :: "string \<Rightarrow> Packet option result" where
  "ParsePacket msg = fst (readPacket msg 0 (int (length msg)))"

text \<open>
  What the connection answers to one call of \<open>ReceivePacket\<close>: \<open>SetReadDeadline\<close>
  fails, \<open>ReadFrom\<close> fails, or \<open>ReadFrom\<close> delivers a datagram and the address of its
  sender. \<open>ReceivePacket\<close> reads into a buffer of 65535 zero bytes and hands the whole
  buffer to the reader, with \<open>end\<close> the number of bytes received. \<open>readPacket\<close> answers
  a first byte that is neither \<open>/\<close> nor \<open>#\<close> with a nil packet and a nil error, and
  \<open>pkt.SetAddr(addr)\<close> on the nil packet is a nil dereference.
\<close>

datatype conn_result =
    SetReadDeadlineFails error
  | ReadFromFails error
  | ReadFrom bytes string

definition SetAddr :: "Packet \<Rightarrow> string \<Rightarrow> Packet" where
  "SetAddr pkt a =
     (case pkt of
        PMessage msg \<Rightarrow> PMessage (msg\<lparr>msg_addr := Some a\<rparr>)
      | PBundle b \<Rightarrow> PBundle (Bundle (Timetag_of b) (Messages b) (Bundles b) (Some a)))"

definition ReceivePacket :: "conn_result \<Rightarrow> Packet result" where
  "ReceivePacket c =
     (case c of
        SetReadDeadlineFails err \<Rightarrow> Err err
      | ReadFromFails err \<Rightarrow> Err err
      | ReadFrom datagram a \<Rightarrow>
          (let n = min (length datagram) 65535;
               data = take n datagram @ replicate (65535 - n) NUL
           in case readPacket data 0 (int n) of
                (Err err, _) \<Rightarrow> Err err
              | (Panic, _) \<Rightarrow> Panic
              | (Ok None, _) \<Rightarrow> Panic
              | (Ok (Some pkt), _) \<Rightarrow> Ok (SetAddr pkt a)))"

text \<open>
  \<open>Serve\<close> loops forever; the model runs it over the answers the connection gives to
  the first calls of \<open>ReceivePacket\<close> and returns what the loop did (sleeps, and
  dispatches handed to goroutines) and how it stands: returned with an error, crashed by
  a panic, or in the next receive with the current \<open>tempDelay\<close>. A \<open>time.Duration\<close> is
  an \<open>int64\<close> of nanoseconds; \<open>tempDelay *= 2\<close> wraps around. \<open>is_temporary\<close> is the
  test \<open>err.(net.Error)\<close> with \<open>ne.Temporary()\<close>.
\<close>

definition wrap_int64 :: "int \<Rightarrow> int" where
  "wrap_int64 x = (x + 2 ^ 63) mod 2 ^ 64 - 2 ^ 63"

definition Millisecond :: int where
  "Millisecond = 1000000"

definition Second :: int where
  "Second = 1000000000"

datatype serve_event = Sleep int | GoDispatch Packet

datatype serve_end = Returned error | Crashed | Receiving int

fun is_temporary :: "error \<Rightarrow> bool" where
  "is_temporary (NetError t) = t"
| "is_temporary _ = False"

definition next_tempDelay :: "int \<Rightarrow> int" where
  "next_tempDelay tempDelay =
     (let tempDelay1 = (if tempDelay = 0 then 5 * Millisecond else wrap_int64 (tempDelay * 2));
          max = 1 * Second
      in if tempDelay1 > max then max else tempDelay1)"

fun Serve_loop :: "int \<Rightarrow> conn_result list \<Rightarrow> serve_event list \<times> serve_end" where
  "Serve_loop tempDelay [] = ([], Receiving tempDelay)"
| "Serve_loop tempDelay (c # cs) =
     (case ReceivePacket c of
        Err err \<Rightarrow>
          if is_temporary err
          then (let tempDelay1 = next_tempDelay tempDelay;
                    (evs, fin) = Serve_loop tempDelay1 cs
                in (Sleep tempDelay1 # evs, fin))
          else ([], Returned err)
      | Panic \<Rightarrow> ([], Crashed)
      | Ok msg \<Rightarrow>
          (let (evs, fin) = Serve_loop 0 cs in (GoDispatch msg # evs, fin)))"

definition Serve :: "conn_result list \<Rightarrow> serve_event list \<times> serve_end" where
  "Serve cs = Serve_loop 0 cs"

section \<open>The dispatcher\<close>

text \<open>
  \<open>handlers\<close> is a Go map from addresses to handlers, modelled as an association list
  with the keys in the order in which \<open>range\<close> enumerates them. Go leaves that order
  open: a statement for every list stands for every order. A handler is a value of any
  type \<open>'h\<close>; calling it is recorded as an event.
\<close>

definition addressExists :: "string \<Rightarrow> (string \<times> 'h) list \<Rightarrow> bool" where
  "addressExists a handlers = list_ex (\<lambda>(h, _). h = a) handlers"

definition AddMsgHandler ::
  "(string \<times> 'h) list \<Rightarrow> string \<Rightarrow> 'h \<Rightarrow> unit result \<times> (string \<times> 'h) list" where
  "AddMsgHandler handlers a handler =
     (case find (\<lambda>chr. chr \<in> set a) ''*?,[]{}# '' of
        Some chr \<Rightarrow> (Err (AddrCharNotAllowed chr), handlers)
      | None \<Rightarrow>
          if addressExists a handlers then (Err (AddrExists a), handlers)
          else (Ok (), AList.update a handler handlers))"















section \<open>Predicates of the statements\<close>

text \<open>
  The arguments the decoder reads back as the encoder wrote them: every type of the
  encoder's switch but \<open>nil\<close> and the blob, a string being free of NUL bytes (the wire
  format ends a string at its first NUL).
\<close>

fun wire_arg :: "Argument \<Rightarrow> bool" where
  "wire_arg Arg_nil = False"
| "wire_arg (Arg_bool b) = True"
| "wire_arg (Arg_int32 t) = True"
| "wire_arg (Arg_int64 t) = True"
| "wire_arg (Arg_float32 t) = True"
| "wire_arg (Arg_float64 t) = True"
| "wire_arg (Arg_string t) = (NUL \<notin> set t)"
| "wire_arg (Arg_blob t) = False"
| "wire_arg (Arg_timetag t) = True"
| "wire_arg Arg_other = False"



text \<open>
  The delay the specification gives the \<open>k\<close>-th transient error of a run, in
  nanoseconds: 5 ms doubled \<open>k - 1\<close> times, at most 1 s; none before the first.
\<close>

fun run_delay :: "nat \<Rightarrow> int" where
  "run_delay 0 = 0"
| "run_delay (Suc k) = min (5000000 * 2 ^ k) 1000000000"

text \<open>The delay after one more transient error, as the specification has it.\<close>

definition backoff :: "int \<Rightarrow> int" where
  "backoff d = (if d = 0 then 5000000 else min (2 * d) 1000000000)"

section \<open>Padding\<close>

lemma go_quot_nonneg: "0 \<le> a \<Longrightarrow> 0 < b \<Longrightarrow> go_quot a b = a div b"
  by (simp add: go_quot_def)

lemma padBytesNeeded_nonneg: "0 \<le> n \<Longrightarrow> padBytesNeeded n = 4 - n mod 4"
  unfolding padBytesNeeded_def by (simp add: go_quot_nonneg) presburger

lemma padBytesNeeded_range: "0 \<le> n \<Longrightarrow> 1 \<le> padBytesNeeded n \<and> padBytesNeeded n \<le> 4"
  by (simp add: padBytesNeeded_nonneg)

lemma padBytesNeeded_dvd: "0 \<le> n \<Longrightarrow> 4 dvd n + padBytesNeeded n"
  by (simp add: padBytesNeeded_nonneg) presburger

lemma writePaddedString_eq:
  "writePaddedString s buf =
     (Ok (int (length s) + padBytesNeeded (int (length s))),
      buf @ s @ replicate (nat (padBytesNeeded (int (length s)))) NUL)"
  using padBytesNeeded_range [of "int (length s)"]
  by (simp add: writePaddedString_def Let_def)

text \<open>
  C8. For every string \<open>s\<close> (and every buffer written to), \<open>writePaddedString\<close> appends
  \<open>s\<close> followed by exactly \<open>padBytesNeeded (len s) = 4 * (len s / 4 + 1) - len s\<close> zero
  bytes; that count lies between 1 and 4, the number of bytes reported and written is a
  multiple of 4 and at least \<open>len s + 1\<close>.
\<close>

theorem C8_writePaddedString_padding:
  "\<exists>n buf'. writePaddedString s buf = (Ok n, buf')
     \<and> buf' = buf @ s @ replicate (nat (padBytesNeeded (int (length s)))) NUL
     \<and> padBytesNeeded (int (length s)) = 4 * (int (length s) div 4 + 1) - int (length s)
     \<and> 1 \<le> padBytesNeeded (int (length s)) \<and> padBytesNeeded (int (length s)) \<le> 4
     \<and> n = int (length buf') - int (length buf)
     \<and> 4 dvd n \<and> int (length s) + 1 \<le> n"
proof -
  let ?p = "padBytesNeeded (int (length s))"
  have r: "1 \<le> ?p \<and> ?p \<le> 4" by (rule padBytesNeeded_range) simp
  have d: "4 dvd int (length s) + ?p" by (rule padBytesNeeded_dvd) simp
  have f: "?p = 4 * (int (length s) div 4 + 1) - int (length s)"
    by (simp add: padBytesNeeded_def go_quot_nonneg)
  show ?thesis
    unfolding writePaddedString_eq using r d f by auto
qed

theorem C8_writePaddedString_padding_witness:
  "writePaddedString ''/a/b/c'' [] = (Ok 8, ''/a/b/c'' @ [NUL, NUL])"
  using C8_writePaddedString_padding [of "''/a/b/c''" "[]"]
  by (simp add: writePaddedString_def padBytesNeeded_def go_quot_def Let_def numeral_eq_Suc)

section \<open>Encoding and decoding are inverse on the wire types\<close>

lemma length_be_bytes: "length (be_bytes k v) = k"
  by (induction k arbitrary: v) auto

lemma from_be_snoc: "from_be (bs @ [c]) = from_be bs * 256 + of_char c"
  by (simp add: from_be_def)

lemma from_be_be_bytes: "from_be (be_bytes k v) = v mod 256 ^ k"
proof (induction k arbitrary: v)
  case 0
  then show ?case by (simp add: from_be_def)
next
  case (Suc k)
  have "from_be (be_bytes (Suc k) v) = (v div 256 mod 256 ^ k) * 256 + v mod 256"
    by (simp add: from_be_snoc Suc)
  also have "\<dots> = v mod 256 ^ Suc k"
    by (simp add: mod_mult2_eq)
  finally show ?case .
qed

lemma word32_roundtrip: "(of_nat (from_be (be_bytes 4 (unat (w :: 32 word)))) :: 32 word) = w"
proof -
  have "unat w < 2 ^ 32" using unsigned_less [of w] by simp
  then have "unat w mod 256 ^ 4 = unat w" by simp
  then show ?thesis by (simp add: from_be_be_bytes)
qed

lemma word64_roundtrip: "(of_nat (from_be (be_bytes 8 (unat (w :: 64 word)))) :: 64 word) = w"
proof -
  have "unat w < 2 ^ 64" using unsigned_less [of w] by simp
  then have "unat w mod 256 ^ 8 = unat w" by simp
  then show ?thesis by (simp add: from_be_be_bytes)
qed

lemma binary_Read_be_bytes:
  "binary_Read k (be_bytes k v @ rest) = (Ok (be_bytes k v), rest)"
  by (simp add: binary_Read_def length_be_bytes)

lemma ReadString0_terminated:
  assumes "NUL \<notin> set s"
  shows "ReadString0 (s @ NUL # rest) = (Ok (s @ [NUL]), rest)"
proof -
  have t: "takeWhile (\<lambda>c. c \<noteq> NUL) (s @ NUL # rest) = s"
    using assms by (induction s) auto
  have d: "dropWhile (\<lambda>c. c \<noteq> NUL) (s @ NUL # rest) = NUL # rest"
    using assms by (induction s) auto
  show ?thesis by (simp add: ReadString0_def t d)
qed

lemma readPaddedString_written:
  assumes "NUL \<notin> set s"
  shows "readPaddedString (s @ replicate (nat (padBytesNeeded (int (length s)))) NUL @ rest)
           = (Ok (s, int (length s) + padBytesNeeded (int (length s))), rest)"
proof -
  let ?p = "padBytesNeeded (int (length s))"
  have r: "1 \<le> ?p \<and> ?p \<le> 4" by (rule padBytesNeeded_range) simp
  then obtain q where q: "nat ?p = Suc q" by (cases "nat ?p") auto
  have p: "?p = int q + 1" using q r by linarith
  have rs: "ReadString0 (s @ replicate (nat ?p) NUL @ rest) = (Ok (s @ [NUL]), replicate q NUL @ rest)"
    using ReadString0_terminated [OF assms] by (simp add: q)
  have rd: "0 < q \<Longrightarrow> Read q (replicate q NUL @ rest) = (Ok (replicate q NUL), rest)"
    by (simp add: Read_def)
  show ?thesis
    unfolding readPaddedString_def rs using rd by (simp add: Let_def p)
qed

lemma marshal_arg_step:
  assumes "wire_arg a"
  shows "\<exists>c p. marshal_arg a (tt, pl) = Ok (tt @ [c], pl @ p) \<and> c \<noteq> NUL \<and>
           (\<forall>cs msg rest st. readArguments_loop (c # cs) msg (p @ rest) st
              = readArguments_loop cs (Append msg a) rest (st + int (length p)))"
proof (cases a)
  case (Arg_bool b)
  then show ?thesis by (cases b) auto
next
  case (Arg_int32 t)
  then show ?thesis
    by (auto simp: binary_Read_be_bytes word32_roundtrip length_be_bytes)
next
  case (Arg_int64 t)
  then show ?thesis
    by (auto simp: binary_Read_be_bytes word64_roundtrip length_be_bytes)
next
  case (Arg_float32 t)
  then show ?thesis
    by (auto simp: binary_Read_be_bytes word32_roundtrip length_be_bytes)
next
  case (Arg_float64 t)
  then show ?thesis
    by (auto simp: binary_Read_be_bytes word64_roundtrip length_be_bytes)
next
  case (Arg_string t)
  have r: "1 \<le> padBytesNeeded (int (length t))" using padBytesNeeded_range [of "int (length t)"] by simp
  from Arg_string assms have "NUL \<notin> set t" by simp
  from readPaddedString_written [OF this] r show ?thesis
    unfolding Arg_string by (auto simp: writePaddedString_eq)
next
  case (Arg_timetag t)
  then show ?thesis
    by (auto simp: binary_Read_be_bytes word64_roundtrip length_be_bytes ToByteArray_def
        NewTimetagFromTimetag_def)
qed (use assms in auto)

lemma marshal_args_roundtrip:
  assumes "list_all wire_arg args"
  shows "\<exists>tags payload. marshal_args args (tt, pl) = Ok (tt @ tags, pl @ payload) \<and>
           NUL \<notin> set tags \<and>
           (\<forall>msg rest st. readArguments_loop tags msg (payload @ rest) st
              = (Ok (msg\<lparr>Arguments := Arguments msg @ args\<rparr>), rest, st + int (length payload)))"
  using assms
proof (induction args arbitrary: tt pl)
  case Nil
  then show ?case by simp
next
  case (Cons a args)
  from Cons.prems have a: "wire_arg a" and as: "list_all wire_arg args" by simp_all
  from marshal_arg_step [OF a, of tt pl] obtain c p where
    m: "marshal_arg a (tt, pl) = Ok (tt @ [c], pl @ p)" and c: "c \<noteq> NUL" and
    l: "\<And>cs msg rest st. readArguments_loop (c # cs) msg (p @ rest) st
              = readArguments_loop cs (Append msg a) rest (st + int (length p))"
    by blast
  from Cons.IH [OF as, of "tt @ [c]" "pl @ p"] obtain tags payload where
    m': "marshal_args args (tt @ [c], pl @ p) = Ok ((tt @ [c]) @ tags, (pl @ p) @ payload)" and
    n: "NUL \<notin> set tags" and
    l': "\<And>msg rest st. readArguments_loop tags msg (payload @ rest) st
              = (Ok (msg\<lparr>Arguments := Arguments msg @ args\<rparr>), rest, st + int (length payload))"
    by blast
  have 1: "marshal_args (a # args) (tt, pl) = Ok (tt @ (c # tags), pl @ (p @ payload))"
    using m m' by simp
  have 2: "NUL \<notin> set (c # tags)" using c n by auto
  have 3: "readArguments_loop (c # tags) msg ((p @ payload) @ rest) st
              = (Ok (msg\<lparr>Arguments := Arguments msg @ a # args\<rparr>), rest, st + int (length (p @ payload)))"
    for msg rest st
    using l [of tags msg "payload @ rest" st] l' [of "Append msg a" rest "st + int (length p)"]
    by (simp add: Append_def add.assoc)
  from 1 2 3 show ?case by blast
qed

section \<open>Reading a blob\<close>





section \<open>The type-tag string\<close>

lemma readPaddedString_4NUL:
  "readPaddedString (NUL # NUL # NUL # NUL # rest) = (Ok ([], 4), rest)"
  using readPaddedString_written [of "[]" rest]
  by (simp add: padBytesNeeded_def go_quot_def numeral_eq_Suc)

lemma readArguments_not_comma:
  "readPaddedString r = (Ok (c # cs, n), r1) \<Longrightarrow> c \<noteq> CHR '','' \<Longrightarrow>
     readArguments msg r start = (Err UnsupportedTypeTagString, r1, start + n)"
  by (simp add: readArguments_def)

lemma readArguments_empty_panics:
  "readPaddedString r = (Ok ([], n), r1) \<Longrightarrow> readArguments msg r start = (Panic, r1, start + n)"
  by (simp add: readArguments_def)

text \<open>
  C5 says that \<open>readArguments\<close> returns an error for every type-tag string that does not
  begin with a comma, the empty string included. A non-empty one is answered with the
  error (\<open>readArguments_not_comma\<close>). On the empty one, read from four NUL bytes, the
  test \<open>typetags[0] != ','\<close> indexes an empty string and the call panics.
\<close>

theorem C5_empty_type_tag_string_panics:
  "readArguments msg [NUL, NUL, NUL, NUL] start = (Panic, [], start + 4)"
  by (simp add: readArguments_def readPaddedString_4NUL)

text \<open>
  C9 says that decoding a message whose type-tag string holds a \<open>b\<close> always fails,
  since \<open>readBlob\<close> fails on every input (\<open>readBlob_fails\<close>). The message \<open>/a\<close> with
  the tags \<open>,tb\<close> and no payload decodes without an error: the case for \<open>t\<close> answers
  its failed read with \<open>return nil\<close>, and the loop never comes to the \<open>b\<close>.
\<close>

theorem C9_blob_tag_behind_truncated_timetag_decodes:
  "readMessage (''/a'' @ [NUL, NUL] @ '',tb'' @ [NUL]) 0
     = (Ok \<lparr>Address = ''/a'', Arguments = [], msg_addr = None\<rparr>, [], 8)"
  by (simp add: readMessage_def readArguments_def readPaddedString_def ReadString0_def Read_def
      padBytesNeeded_def go_quot_def binary_Read_def NewMessage_def Let_def)






section \<open>Registering a handler\<close>

lemma addressExists_iff: "addressExists a handlers \<longleftrightarrow> a \<in> fst ` set handlers"
  by (force simp: addressExists_def list_ex_iff)

lemma find_reserved:
  "find (\<lambda>chr. chr \<in> set a) cs = None \<longleftrightarrow> (\<forall>chr \<in> set cs. chr \<notin> set a)"
  by (auto simp: find_None_iff)

text \<open>
  C6. \<open>AddMsgHandler\<close> returns an error when the address holds one of the characters
  \<open>* ? , [ ] { } #\<close> or a space, and when the address is registered already; in both
  cases the registry is the one it was. Otherwise it returns no error and the registry
  maps the address to the handler and every other address as before.
\<close>

theorem C6_AddMsgHandler:
  "((\<exists>chr \<in> set ''*?,[]{}# ''. chr \<in> set a) \<longrightarrow>
       (\<exists>e. AddMsgHandler handlers a handler = (Err e, handlers)))
   \<and> (a \<in> fst ` set handlers \<longrightarrow>
       (\<exists>e. AddMsgHandler handlers a handler = (Err e, handlers)))
   \<and> ((\<forall>chr \<in> set ''*?,[]{}# ''. chr \<notin> set a) \<and> a \<notin> fst ` set handlers \<longrightarrow>
       (\<exists>handlers'. AddMsgHandler handlers a handler = (Ok (), handlers')
          \<and> map_of handlers' = (map_of handlers)(a \<mapsto> handler)
          \<and> fst ` set handlers' = insert a (fst ` set handlers)))"
proof (intro conjI impI)
  assume "\<exists>chr \<in> set ''*?,[]{}# ''. chr \<in> set a"
  then have "find (\<lambda>chr. chr \<in> set a) ''*?,[]{}# '' \<noteq> None"
    unfolding find_reserved by blast
  then obtain chr where "find (\<lambda>chr. chr \<in> set a) ''*?,[]{}# '' = Some chr" by blast
  then show "\<exists>e. AddMsgHandler handlers a handler = (Err e, handlers)"
    by (simp add: AddMsgHandler_def)
next
  assume "a \<in> fst ` set handlers"
  then have "addressExists a handlers" by (simp add: addressExists_iff)
  then show "\<exists>e. AddMsgHandler handlers a handler = (Err e, handlers)"
    by (cases "find (\<lambda>chr. chr \<in> set a) ''*?,[]{}# ''") (simp_all add: AddMsgHandler_def)
next
  assume h: "(\<forall>chr \<in> set ''*?,[]{}# ''. chr \<notin> set a) \<and> a \<notin> fst ` set handlers"
  then have f: "find (\<lambda>chr. chr \<in> set a) ''*?,[]{}# '' = None"
    unfolding find_reserved by blast
  from h have "\<not> addressExists a handlers" by (simp add: addressExists_iff)
  with f have "AddMsgHandler handlers a handler = (Ok (), AList.update a handler handlers)"
    by (simp add: AddMsgHandler_def)
  then show "\<exists>handlers'. AddMsgHandler handlers a handler = (Ok (), handlers')
          \<and> map_of handlers' = (map_of handlers)(a \<mapsto> handler)
          \<and> fst ` set handlers' = insert a (fst ` set handlers)"
    by (simp add: AList.update_conv' AList.dom_update)
qed

theorem C6_AddMsgHandler_witness:
  "AddMsgHandler [(''/a'', 1::nat)] ''/b*'' 2 = (Err (AddrCharNotAllowed CHR ''*''), [(''/a'', 1)])
   \<and> AddMsgHandler [(''/a'', 1::nat)] ''/a'' 2 = (Err (AddrExists ''/a''), [(''/a'', 1)])
   \<and> AddMsgHandler [(''/a'', 1::nat)] ''/b'' 2 = (Ok (), [(''/a'', 1), (''/b'', 2)])"
  using C6_AddMsgHandler [of "''/b*''" "[(''/a'', 1::nat)]" 2] C6_AddMsgHandler [of "''/a''" "[(''/a'', 1::nat)]" 2]
    C6_AddMsgHandler [of "''/b''" "[(''/a'', 1::nat)]" 2]
  by (simp add: AddMsgHandler_def addressExists_def)

section \<open>The backoff of Serve\<close>

lemma wrap_int64_id: "- (2 ^ 63) \<le> x \<Longrightarrow> x < 2 ^ 63 \<Longrightarrow> wrap_int64 x = x"
  by (simp add: wrap_int64_def)

lemma next_tempDelay_backoff:
  assumes "0 \<le> d" "d \<le> Second"
  shows "next_tempDelay d = backoff d"
proof -
  have "wrap_int64 (d * 2) = d * 2"
    using assms by (intro wrap_int64_id) (simp_all add: Second_def)
  then show ?thesis
    by (auto simp: next_tempDelay_def backoff_def Let_def Millisecond_def Second_def)
qed

lemma backoff_range: "0 \<le> d \<Longrightarrow> 0 < backoff d \<and> backoff d \<le> Second"
  by (auto simp: backoff_def Second_def)

lemma Serve_loop_temporary:
  assumes "ReceivePacket c = Err e" "is_temporary e" "0 \<le> d" "d \<le> Second"
  shows "Serve_loop d (c # cs) =
           (Sleep (backoff d) # fst (Serve_loop (backoff d) cs), snd (Serve_loop (backoff d) cs))"
  using assms by (simp add: next_tempDelay_backoff Let_def split: prod.splits)

lemma Serve_loop_success:
  assumes "ReceivePacket c = Ok pkt"
  shows "Serve_loop d (c # cs) = (GoDispatch pkt # fst (Serve_loop 0 cs), snd (Serve_loop 0 cs))"
  using assms by (simp split: prod.splits)

lemma Serve_loop_fatal:
  assumes "ReceivePacket c = Err e" "\<not> is_temporary e"
  shows "Serve_loop d (c # cs) = ([], Returned e)"
  using assms by simp

lemma backoff_run_delay: "backoff (run_delay k) = run_delay (Suc k)"
proof (cases k)
  case 0
  then show ?thesis by (simp add: backoff_def)
next
  case (Suc j)
  have "(0::int) < 5000000 * 2 ^ j" by simp
  then show ?thesis using Suc by (auto simp: backoff_def min_def)
qed

lemma run_delay_range: "0 \<le> run_delay k \<and> run_delay k \<le> Second"
  by (cases k) (simp_all add: Second_def)

lemma Serve_loop_run:
  assumes "\<forall>c \<in> set run. \<exists>e. ReceivePacket c = Err e \<and> is_temporary e"
  shows "Serve_loop (run_delay k) (run @ cs) =
           (map (\<lambda>i. Sleep (run_delay (Suc (k + i)))) [0..<length run]
              @ fst (Serve_loop (run_delay (k + length run)) cs),
            snd (Serve_loop (run_delay (k + length run)) cs))"
  using assms
proof (induction run arbitrary: k)
  case Nil
  then show ?case by simp
next
  case (Cons c run)
  from Cons.prems obtain e where e: "ReceivePacket c = Err e" "is_temporary e" by auto
  from Cons.prems have r: "\<forall>c \<in> set run. \<exists>e. ReceivePacket c = Err e \<and> is_temporary e" by simp
  have m: "map (\<lambda>i. Sleep (run_delay (Suc (k + i)))) [0..<Suc (length run)]
        = Sleep (run_delay (Suc k)) # map (\<lambda>i. Sleep (run_delay (Suc (Suc k + i)))) [0..<length run]"
    by (simp add: upt_conv_Cons map_Suc_upt [symmetric] del: upt_Suc)
  have "Serve_loop (run_delay k) ((c # run) @ cs)
      = (Sleep (run_delay (Suc k)) # fst (Serve_loop (run_delay (Suc k)) (run @ cs)),
         snd (Serve_loop (run_delay (Suc k)) (run @ cs)))"
    using Serve_loop_temporary [OF e, of "run_delay k" "run @ cs"] run_delay_range [of k]
    by (simp only: backoff_run_delay append_Cons) 
  also have "\<dots> = (map (\<lambda>i. Sleep (run_delay (Suc (k + i)))) [0..<length (c # run)]
              @ fst (Serve_loop (run_delay (k + length (c # run))) cs),
            snd (Serve_loop (run_delay (k + length (c # run))) cs))"
    unfolding Cons.IH [OF r, of "Suc k"] using m by simp
  finally show ?case .
qed

text \<open>
  C7. A run of transient errors from a fresh loop sleeps 5 ms, then twice the delay
  before, at most 1 s, for each error of the run; from any delay between 0 and 1 s a
  transient error sleeps 5 ms when the delay is 0 and twice the delay, at most 1 s,
  otherwise; a successful receive hands the packet to the dispatcher and sets the delay
  to 0; an error that is not transient ends the loop, which returns it.
\<close>

theorem C7_Serve_backoff:
  "((\<forall>c \<in> set run. \<exists>e. ReceivePacket c = Err e \<and> is_temporary e) \<longrightarrow>
      Serve (run @ cs) =
        (map (\<lambda>i. Sleep (min (5 * Millisecond * 2 ^ i) (1 * Second))) [0..<length run]
           @ fst (Serve_loop (run_delay (length run)) cs),
         snd (Serve_loop (run_delay (length run)) cs)))
   \<and> (ReceivePacket c = Err e \<and> is_temporary e \<and> 0 \<le> d \<and> d \<le> Second \<longrightarrow>
        Serve_loop d (c # cs) =
          (Sleep (if d = 0 then 5 * Millisecond else min (2 * d) (1 * Second))
             # fst (Serve_loop (if d = 0 then 5 * Millisecond else min (2 * d) (1 * Second)) cs),
           snd (Serve_loop (if d = 0 then 5 * Millisecond else min (2 * d) (1 * Second)) cs)))
   \<and> (ReceivePacket c = Ok pkt \<longrightarrow>
        Serve_loop d (c # cs) = (GoDispatch pkt # fst (Serve_loop 0 cs), snd (Serve_loop 0 cs)))
   \<and> (ReceivePacket c = Err e \<and> \<not> is_temporary e \<longrightarrow>
        Serve_loop d (c # cs) = ([], Returned e))"
proof (intro conjI impI)
  assume "\<forall>c \<in> set run. \<exists>e. ReceivePacket c = Err e \<and> is_temporary e"
  from Serve_loop_run [OF this, of 0 cs]
  show "Serve (run @ cs) =
        (map (\<lambda>i. Sleep (min (5 * Millisecond * 2 ^ i) (1 * Second))) [0..<length run]
           @ fst (Serve_loop (run_delay (length run)) cs),
         snd (Serve_loop (run_delay (length run)) cs))"
    by (simp add: Serve_def Millisecond_def Second_def)
next
  assume "ReceivePacket c = Err e \<and> is_temporary e \<and> 0 \<le> d \<and> d \<le> Second"
  then show "Serve_loop d (c # cs) =
          (Sleep (if d = 0 then 5 * Millisecond else min (2 * d) (1 * Second))
             # fst (Serve_loop (if d = 0 then 5 * Millisecond else min (2 * d) (1 * Second)) cs),
           snd (Serve_loop (if d = 0 then 5 * Millisecond else min (2 * d) (1 * Second)) cs))"
    using Serve_loop_temporary [of c e d cs]
    by (simp add: backoff_def Millisecond_def Second_def)
next
  assume "ReceivePacket c = Ok pkt"
  then show "Serve_loop d (c # cs) = (GoDispatch pkt # fst (Serve_loop 0 cs), snd (Serve_loop 0 cs))"
    by (rule Serve_loop_success)
next
  assume "ReceivePacket c = Err e \<and> \<not> is_temporary e"
  then show "Serve_loop d (c # cs) = ([], Returned e)"
    using Serve_loop_fatal by blast
qed

theorem C7_Serve_backoff_witness:
  "Serve [ReadFromFails (NetError True), SetReadDeadlineFails (NetError True),
          ReadFromFails (NetError True), ReadFromFails EOF, ReadFromFails (NetError True)]
     = ([Sleep 5000000, Sleep 10000000, Sleep 20000000], Returned EOF)"
  using C7_Serve_backoff
    [where run = "[ReadFromFails (NetError True), SetReadDeadlineFails (NetError True),
                   ReadFromFails (NetError True)]"
       and cs = "[ReadFromFails EOF, ReadFromFails (NetError True)]"
       and c = "ReadFromFails EOF" and e = EOF and d = 0]
  by (simp add: Serve_def ReceivePacket_def next_tempDelay_def wrap_int64_def Millisecond_def
      Second_def Let_def)

section \<open>Dispatching a message\<close>









section \<open>The round trip of a message\<close>

lemma readPacket_slash:
  "readPacket (CHR ''/'' # r) start endp =
     (case readMessage (CHR ''/'' # r) start of
        (Err e, r1, start1) \<Rightarrow> (Err e, r1, start1)
      | (Panic, r1, start1) \<Rightarrow> (Panic, r1, start1)
      | (Ok pkt, r1, start1) \<Rightarrow> (Ok (Some (PMessage pkt)), r1, start1))"
  by (simp add: readPacket.simps Peek1_def)

lemma readPacket_other:
  "c \<noteq> CHR ''/'' \<Longrightarrow> c \<noteq> CHR ''#'' \<Longrightarrow> readPacket (c # r) start endp = (Ok None, c # r, start)"
  by (simp add: readPacket.simps Peek1_def)

lemma readPacket_empty: "readPacket [] start endp = (Err EOF, [], start)"
  by (simp add: readPacket.simps Peek1_def)

lemma marshal_message:
  assumes "NUL \<notin> set (Address m)" and "list_all wire_arg (Arguments m)"
  shows "\<exists>bs. MarshalBinary m = Ok bs \<and>
           readMessage (bs @ rest) start =
             (Ok \<lparr>Address = Address m, Arguments = Arguments m, msg_addr = None\<rparr>, rest,
              start + int (length bs))
           \<and> (\<exists>pad. bs = Address m @ NUL # pad)"
proof -
  from marshal_args_roundtrip [OF assms(2), of "'',''" "[]"] obtain tags payload where
    m: "marshal_args (Arguments m) ('','', []) = Ok ('','' @ tags, payload)" and
    n: "NUL \<notin> set tags" and
    l: "\<And>msg rest st. readArguments_loop tags msg (payload @ rest) st
              = (Ok (msg\<lparr>Arguments := Arguments msg @ Arguments m\<rparr>), rest, st + int (length payload))"
    by auto
  define tt where "tt = CHR '','' # tags"
  define na where "na = padBytesNeeded (int (length (Address m)))"
  define nt where "nt = padBytesNeeded (int (length tt))"
  define pa where "pa = replicate (nat na) NUL"
  define pt where "pt = replicate (nat nt) NUL"
  define bs where "bs = Address m @ pa @ tt @ pt @ payload"
  have enc: "MarshalBinary m = Ok bs"
    by (simp add: MarshalBinary_def writePaddedString_eq m bs_def pa_def pt_def tt_def na_def nt_def)
  have ntt: "NUL \<notin> set tt" using n by (simp add: tt_def)
  have ra: "readPaddedString (bs @ rest) =
      (Ok (Address m, int (length (Address m)) + na), tt @ pt @ payload @ rest)"
    using readPaddedString_written [OF assms(1), of "tt @ pt @ payload @ rest"]
    by (simp add: bs_def pa_def na_def)
  have rt: "readPaddedString (tt @ pt @ payload @ rest) =
      (Ok (tt, int (length tt) + nt), payload @ rest)"
    using readPaddedString_written [OF ntt, of "payload @ rest"]
    by (simp add: pt_def nt_def)
  have la: "int (length pa) = na"
    using padBytesNeeded_range [of "int (length (Address m))"] by (simp add: pa_def na_def)
  have lt: "int (length pt) = nt"
    using padBytesNeeded_range [of "int (length tt)"] by (simp add: pt_def nt_def)
  have len: "int (length bs) = int (length (Address m)) + na + (int (length tt) + nt)
       + int (length payload)"
    using la lt by (simp add: bs_def)
  have ra2: "readArguments (NewMessage (Address m)) (tt @ pt @ payload @ rest) st =
      (Ok \<lparr>Address = Address m, Arguments = Arguments m, msg_addr = None\<rparr>, rest,
       st + (int (length tt) + nt) + int (length payload))" for st
    unfolding readArguments_def rt by (simp add: tt_def l NewMessage_def)
  have dec: "readMessage (bs @ rest) start =
      (Ok \<lparr>Address = Address m, Arguments = Arguments m, msg_addr = None\<rparr>, rest,
       start + int (length bs))"
    unfolding readMessage_def ra by (simp add: ra2 len)
  have "1 \<le> na"
    using padBytesNeeded_range [of "int (length (Address m))"] by (simp add: na_def)
  then obtain q where "nat na = Suc q"
    by (cases "nat na") auto
  then have "bs = Address m @ NUL # (replicate q NUL @ tt @ pt @ payload)"
    by (simp add: bs_def pa_def)
  with enc dec show ?thesis by blast
qed

text \<open>
  C1, as stated, fails on three kinds of valid message. The encoder writes the tag \<open>N\<close>
  for nil and the decoder has no case for it; the encoder writes a blob and \<open>readBlob\<close>
  fails on every input; a string with a NUL byte inside is written as it is and read
  back up to that byte.
\<close>

theorem C1_round_trip_fails_for_nil_blob_and_NUL:
  "MarshalBinary \<lparr>Address = ''/a'', Arguments = [Arg_nil], msg_addr = None\<rparr>
     = Ok (''/a'' @ [NUL, NUL] @ '',N'' @ [NUL, NUL])
   \<and> ParsePacket (''/a'' @ [NUL, NUL] @ '',N'' @ [NUL, NUL]) = Err (UnsupportedTypeTag CHR ''N'')
   \<and> MarshalBinary \<lparr>Address = ''/a'', Arguments = [Arg_blob ''xy''], msg_addr = None\<rparr>
     = Ok (''/a'' @ [NUL, NUL] @ '',b'' @ [NUL, NUL] @ [NUL, NUL, NUL, CHR 0x02] @ ''xy'' @ [NUL, NUL])
   \<and> ParsePacket (''/a'' @ [NUL, NUL] @ '',b'' @ [NUL, NUL] @ [NUL, NUL, NUL, CHR 0x02] @ ''xy''
                     @ [NUL, NUL]) = Err InvalidType
   \<and> MarshalBinary \<lparr>Address = ''/a'', Arguments = [Arg_string [CHR ''x'', NUL, CHR ''y'']],
                       msg_addr = None\<rparr>
     = Ok (''/a'' @ [NUL, NUL] @ '',s'' @ [NUL, NUL] @ [CHR ''x'', NUL, CHR ''y'', NUL])
   \<and> ParsePacket (''/a'' @ [NUL, NUL] @ '',s'' @ [NUL, NUL] @ [CHR ''x'', NUL, CHR ''y'', NUL])
     = Ok (Some (PMessage \<lparr>Address = ''/a'', Arguments = [Arg_string ''x''], msg_addr = None\<rparr>))"
  by code_simp

text \<open>
  C1, amended: for every message whose address begins with \<open>/\<close> and holds no NUL byte,
  and whose arguments are booleans, \<open>int32\<close>, \<open>int64\<close>, \<open>float32\<close>, \<open>float64\<close>, strings
  without a NUL byte and timetags, \<open>MarshalBinary\<close> succeeds, and decoding its bytes
  (\<open>ParsePacket\<close>, or \<open>readMessage\<close> from offset 0) succeeds, consumes them all and
  yields a message with the same address and the same arguments in the same order.
\<close>

theorem C1_wire_types_round_trip:
  assumes "Address m = CHR ''/'' # a" and "NUL \<notin> set (Address m)"
    and "list_all wire_arg (Arguments m)"
  shows "\<exists>bs. MarshalBinary m = Ok bs
           \<and> ParsePacket bs =
               Ok (Some (PMessage \<lparr>Address = Address m, Arguments = Arguments m, msg_addr = None\<rparr>))
           \<and> readMessage bs 0 =
               (Ok \<lparr>Address = Address m, Arguments = Arguments m, msg_addr = None\<rparr>, [],
                int (length bs))"
proof -
  from marshal_message [OF assms(2,3), of "[]" 0] obtain bs pad where
    e: "MarshalBinary m = Ok bs" and
    d: "readMessage bs 0 =
             (Ok \<lparr>Address = Address m, Arguments = Arguments m, msg_addr = None\<rparr>, [],
              int (length bs))" and
    b: "bs = Address m @ NUL # pad"
    by auto
  from b assms(1) obtain r where "bs = CHR ''/'' # r" by simp
  with d have "ParsePacket bs =
               Ok (Some (PMessage \<lparr>Address = Address m, Arguments = Arguments m, msg_addr = None\<rparr>))"
    by (simp add: ParsePacket_def readPacket_slash)
  with e d show ?thesis by blast
qed

theorem C1_wire_types_round_trip_witness:
  "MarshalBinary \<lparr>Address = ''/ab'',
                   Arguments = [Arg_int32 7, Arg_string ''hey'', Arg_bool True], msg_addr = None\<rparr>
     = Ok (''/ab'' @ [NUL] @ '',isT'' @ [NUL, NUL, NUL, NUL] @ [NUL, NUL, NUL, CHR 0x07]
           @ ''hey'' @ [NUL])
   \<and> ParsePacket (''/ab'' @ [NUL] @ '',isT'' @ [NUL, NUL, NUL, NUL] @ [NUL, NUL, NUL, CHR 0x07]
           @ ''hey'' @ [NUL])
     = Ok (Some (PMessage \<lparr>Address = ''/ab'',
                   Arguments = [Arg_int32 7, Arg_string ''hey'', Arg_bool True], msg_addr = None\<rparr>))"
proof -
  let ?m = "\<lparr>Address = ''/ab'',
             Arguments = [Arg_int32 7, Arg_string ''hey'', Arg_bool True], msg_addr = None\<rparr>"
  have e: "MarshalBinary ?m
     = Ok (''/ab'' @ [NUL] @ '',isT'' @ [NUL, NUL, NUL, NUL] @ [NUL, NUL, NUL, CHR 0x07]
           @ ''hey'' @ [NUL])"
    by code_simp
  have "\<exists>bs. MarshalBinary ?m = Ok bs
           \<and> ParsePacket bs =
               Ok (Some (PMessage \<lparr>Address = Address ?m, Arguments = Arguments ?m, msg_addr = None\<rparr>))
           \<and> readMessage bs 0 =
               (Ok \<lparr>Address = Address ?m, Arguments = Arguments ?m, msg_addr = None\<rparr>, [],
                int (length bs))"
    by (rule C1_wire_types_round_trip [where a = "''ab''"]) simp_all
  with e show ?thesis by simp
qed

section \<open>Malformed datagrams\<close>




lemma ReceivePacket_empty_datagram: "ReceivePacket (ReadFrom [] p) = Panic"
proof -
  have "replicate (Suc 65534) NUL = NUL # replicate 65534 NUL"
    by (rule replicate_Suc)
  moreover have "Suc 65534 = 65535" by simp
  ultimately have "replicate 65535 NUL = NUL # replicate 65534 NUL"
    by (simp only:)
  then show ?thesis
    by (simp add: ReceivePacket_def readPacket_other Let_def)
qed

lemma ReceivePacket_no_tags: "ReceivePacket (ReadFrom (''/a'' @ [NUL, NUL]) p) = Panic"
proof -
  have "replicate (4 + 65527) NUL = replicate 4 NUL @ replicate 65527 NUL"
    by (rule replicate_add)
  moreover have "replicate 4 NUL = [NUL, NUL, NUL, NUL]"
    by (simp add: numeral_eq_Suc)
  moreover have "(4::nat) + 65527 = 65531" by simp
  ultimately have "replicate 65531 NUL = NUL # NUL # NUL # NUL # replicate 65527 NUL"
    by (simp only: append_Cons append_Nil)
  then show ?thesis
  by (simp add: ReceivePacket_def readPacket_slash readMessage_def readArguments_def
      readPaddedString_def ReadString0_def Read_def padBytesNeeded_def go_quot_def Let_def)
qed
















end
